theory Spec2Isabelle
  imports Main "HOL-Library.Word" "HOL-Library.Multiset"
begin

section \<open>Status codes and basic types\<close>

text \<open>
  The result values returned by the framework. The enumeration itself lives in
  \<^verbatim>\<open>Pandora/StatusCodes.h\<close>; the constructors below are the ones the modelled sources name.
\<close>

datatype StatusCode =
    STATUS_CODE_SUCCESS
  | STATUS_CODE_FAILURE
  | STATUS_CODE_NOT_FOUND
  | STATUS_CODE_NOT_INITIALIZED
  | STATUS_CODE_ALREADY_PRESENT
  | STATUS_CODE_INVALID_PARAMETER

text \<open>\<^verbatim>\<open>PseudoLayer\<close> and the hit counters are \<^verbatim>\<open>unsigned int\<close>.\<close>

type_synonym PseudoLayer = "32 word"

section \<open>The containers behind the ordered calo hit list\<close>

text \<open>
  \<^verbatim>\<open>OrderedCaloHitList\<close> is a \<^verbatim>\<open>std::map\<close> from \<^verbatim>\<open>PseudoLayer\<close> to \<^verbatim>\<open>CaloHitList *\<close>:
  the member functions use \<^verbatim>\<open>find\<close>, \<^verbatim>\<open>insert(value_type(...)).second\<close>, \<^verbatim>\<open>erase\<close> and
  iteration over \<^verbatim>\<open>first\<close> and \<^verbatim>\<open>second\<close>. A map iterates in ascending key order and holds
  each key once, so it is the list of its entries in ascending key order.

  Modelled from the spec: the typedef of \<^verbatim>\<open>CaloHitList\<close> (in \<^verbatim>\<open>Pandora/PandoraInternal.h\<close>)
  is not among the sources, which use a bucket through \<^verbatim>\<open>insert(p).second\<close>, \<^verbatim>\<open>find(p)\<close>,
  \<^verbatim>\<open>erase(it)\<close>, \<^verbatim>\<open>empty()\<close> and iteration. The specification: a layer bucket is "a set of
  hit references", flattened in "each bucket's internal iteration order", and "within a
  layer, insertion order is preserved". So a bucket is the list of its hits, each held once,
  in the order of their insertion: a new hit goes to the end and an erased hit leaves the
  order of the others as it was. A hit is its address, a value of any type \<open>'h\<close>. Every bucket
  is allocated by \<open>AddCaloHit\<close> and owned by one map entry, so the entry holds the bucket's
  contents.
\<close>

type_synonym 'h CaloHitList = "'h list"
type_synonym 'h CaloHitVector = "'h list"
type_synonym 'h OrderedCaloHitList = "(PseudoLayer \<times> 'h CaloHitList) list"

text \<open>
  \<^verbatim>\<open>insert(p)\<close> on a bucket: the new bucket and \<^verbatim>\<open>.second\<close>, whether the element was
  inserted. A hit already held is not inserted again.
\<close>

definition set_insert :: "'h \<Rightarrow> 'h CaloHitList \<Rightarrow> 'h CaloHitList \<times> bool" where
  "set_insert h s = (if h \<in> set s then (s, False) else (s @ [h], True))"

text \<open>\<^verbatim>\<open>find(p)\<close> on a bucket, compared with \<^verbatim>\<open>end()\<close>: whether the element was found.\<close>

definition set_find :: "'h \<Rightarrow> 'h CaloHitList \<Rightarrow> bool" where
  "set_find h s = (h \<in> set s)"

text \<open>\<^verbatim>\<open>erase(it)\<close> on a bucket, at the iterator \<^verbatim>\<open>find\<close> returned.\<close>

definition set_erase :: "'h \<Rightarrow> 'h CaloHitList \<Rightarrow> 'h CaloHitList" where
  "set_erase h s = remove1 h s"

text \<open>\<^verbatim>\<open>std::map::find\<close>: the bucket of the entry found, \<open>None\<close> for \<^verbatim>\<open>end()\<close>.\<close>

definition map_find :: "PseudoLayer \<Rightarrow> 'h OrderedCaloHitList \<Rightarrow> 'h CaloHitList option" where
  "map_find k m = map_of m k"

text \<open>\<^verbatim>\<open>std::map::insert\<close>: an existing key keeps its entry and reports \<open>False\<close>.\<close>

definition map_insert ::
  "PseudoLayer \<Rightarrow> 'h CaloHitList \<Rightarrow> 'h OrderedCaloHitList \<Rightarrow> 'h OrderedCaloHitList \<times> bool" where
  "map_insert k v m =
     (if map_of m k \<noteq> None then (m, False) else (insort_key fst (k, v) m, True))"

text \<open>A write through the bucket pointer \<^verbatim>\<open>iter->second\<close> of the entry with key \<open>k\<close>.\<close>

fun bucket_store ::
  "PseudoLayer \<Rightarrow> 'h CaloHitList \<Rightarrow> 'h OrderedCaloHitList \<Rightarrow> 'h OrderedCaloHitList" where
  "bucket_store k v [] = []"
| "bucket_store k v ((a, b) # ps) =
     (if a = k then (a, v) # ps else (a, b) # bucket_store k v ps)"

text \<open>
  \<^verbatim>\<open>std::map::erase\<close> at the iterator of key \<open>k\<close>: the entry with that key goes (a map
  holds one).
\<close>

definition map_erase :: "PseudoLayer \<Rightarrow> 'h OrderedCaloHitList \<Rightarrow> 'h OrderedCaloHitList" where
  "map_erase k m = filter (\<lambda>p. fst p \<noteq> k) m"

section \<open>OrderedCaloHitList\<close>

text \<open>
  Every member function takes the container (\<^verbatim>\<open>this\<close>) and returns it updated next to
  its status code; an output parameter is passed in and returned.
\<close>

definition AddCaloHit ::
  "'h \<Rightarrow> PseudoLayer \<Rightarrow> 'h OrderedCaloHitList \<Rightarrow> StatusCode \<times> 'h OrderedCaloHitList" where
  "AddCaloHit pCaloHit pseudoLayer this =
     (case map_find pseudoLayer this of
        None \<Rightarrow>
          (case set_insert pCaloHit [] of
             (pCaloHitList, insertedHit) \<Rightarrow>
               if \<not> insertedHit then (STATUS_CODE_FAILURE, this)
               else (case map_insert pseudoLayer pCaloHitList this of
                       (this', insertedList) \<Rightarrow>
                         if \<not> insertedList then (STATUS_CODE_FAILURE, this')
                         else (STATUS_CODE_SUCCESS, this')))
      | Some caloHitList \<Rightarrow>
          (case set_insert pCaloHit caloHitList of
             (caloHitList', insertedHit) \<Rightarrow>
               if \<not> insertedHit then (STATUS_CODE_ALREADY_PRESENT, this)
               else (STATUS_CODE_SUCCESS, bucket_store pseudoLayer caloHitList' this)))"

definition RemoveCaloHit ::
  "'h \<Rightarrow> PseudoLayer \<Rightarrow> 'h OrderedCaloHitList \<Rightarrow> StatusCode \<times> 'h OrderedCaloHitList" where
  "RemoveCaloHit pCaloHit pseudoLayer this =
     (case map_find pseudoLayer this of
        None \<Rightarrow> (STATUS_CODE_NOT_FOUND, this)
      | Some caloHitList \<Rightarrow>
          if \<not> set_find pCaloHit caloHitList then (STATUS_CODE_NOT_FOUND, this)
          else (let caloHitList' = set_erase pCaloHit caloHitList in
                if caloHitList' = [] then (STATUS_CODE_SUCCESS, map_erase pseudoLayer this)
                else (STATUS_CODE_SUCCESS, bucket_store pseudoLayer caloHitList' this)))"

definition GetCaloHitsInPseudoLayer ::
  "PseudoLayer \<Rightarrow> 'h OrderedCaloHitList \<Rightarrow> 'h CaloHitList \<Rightarrow> StatusCode \<times> 'h CaloHitList" where
  "GetCaloHitsInPseudoLayer pseudoLayer this pCaloHitList =
     (case map_find pseudoLayer this of
        None \<Rightarrow> (STATUS_CODE_NOT_FOUND, pCaloHitList)
      | Some caloHitList \<Rightarrow> (STATUS_CODE_SUCCESS, caloHitList))"

text \<open>\<open>Reset\<close> deletes every bucket, clears the map and then checks that it is empty.\<close>

definition Reset :: "'h OrderedCaloHitList \<Rightarrow> StatusCode \<times> 'h OrderedCaloHitList" where
  "Reset this =
     (let this' = ([] :: 'h OrderedCaloHitList) in
      if this' \<noteq> [] then (STATUS_CODE_FAILURE, this') else (STATUS_CODE_SUCCESS, this'))"

text \<open>\<open>GetCaloHitVector\<close>: the inner loop appends one bucket, the outer loop walks the map.\<close>

fun push_back_bucket :: "'h CaloHitList \<Rightarrow> 'h CaloHitVector \<Rightarrow> 'h CaloHitVector" where
  "push_back_bucket [] caloHitVector = caloHitVector"
| "push_back_bucket (h # hs) caloHitVector = push_back_bucket hs (caloHitVector @ [h])"

fun GetCaloHitVector :: "'h OrderedCaloHitList \<Rightarrow> 'h CaloHitVector \<Rightarrow> 'h CaloHitVector" where
  "GetCaloHitVector [] caloHitVector = caloHitVector"
| "GetCaloHitVector ((layer, hits) # rest) caloHitVector =
     GetCaloHitVector rest (push_back_bucket hits caloHitVector)"

text \<open>
  Modelled from the spec: the macro \<^verbatim>\<open>PANDORA_RETURN_RESULT_IF_AND_IF\<close> (in
  \<^verbatim>\<open>Pandora/StatusCodes.h\<close>) is not among the sources. The specification of \<open>subtract\<close>:
  it "tolerates (does not fail on) a NotFound for individual entries - the overall operation
  fails only on other error kinds". With the arguments \<^verbatim>\<open>(c1, c2, !=, cmd)\<close> the macro
  returns the status of \<open>cmd\<close> from the enclosing function when it differs from both codes.
\<close>

definition return_result_if_and_if_ne :: "StatusCode \<Rightarrow> StatusCode \<Rightarrow> StatusCode \<Rightarrow> bool" where
  "return_result_if_and_if_ne c1 c2 statusCode = (statusCode \<noteq> c1 \<and> statusCode \<noteq> c2)"

text \<open>
  \<open>Remove\<close> walks the other container (a distinct object, read only) and removes each of
  its hits from this one. In the loops \<open>Some s\<close> is the early return with status \<open>s\<close> and
  \<open>None\<close> is the loop running to its end.
\<close>

fun Remove_hits ::
  "'h CaloHitList \<Rightarrow> PseudoLayer \<Rightarrow> 'h OrderedCaloHitList
     \<Rightarrow> StatusCode option \<times> 'h OrderedCaloHitList" where
  "Remove_hits [] layer this = (None, this)"
| "Remove_hits (h # hs) layer this =
     (case RemoveCaloHit h layer this of
        (statusCode, this') \<Rightarrow>
          if return_result_if_and_if_ne STATUS_CODE_SUCCESS STATUS_CODE_NOT_FOUND statusCode
          then (Some statusCode, this')
          else Remove_hits hs layer this')"

fun Remove_layers ::
  "'h OrderedCaloHitList \<Rightarrow> 'h OrderedCaloHitList \<Rightarrow> StatusCode option \<times> 'h OrderedCaloHitList" where
  "Remove_layers [] this = (None, this)"
| "Remove_layers ((layer, hits) # rest) this =
     (case Remove_hits hits layer this of
        (Some statusCode, this') \<Rightarrow> (Some statusCode, this')
      | (None, this') \<Rightarrow> Remove_layers rest this')"

definition Remove ::
  "'h OrderedCaloHitList \<Rightarrow> 'h OrderedCaloHitList \<Rightarrow> StatusCode \<times> 'h OrderedCaloHitList" where
  "Remove rhs this =
     (case Remove_layers rhs this of
        (Some statusCode, this') \<Rightarrow> (statusCode, this')
      | (None, this') \<Rightarrow> (STATUS_CODE_SUCCESS, this'))"

text \<open>
  Sequences of insertions and removals on a container, for statements about every state a
  container can reach from its constructor (the empty map).
\<close>

datatype 'h layer_operation = AddHit 'h PseudoLayer | RemoveHit 'h PseudoLayer

fun apply_operation ::
  "'h layer_operation \<Rightarrow> 'h OrderedCaloHitList \<Rightarrow> 'h OrderedCaloHitList" where
  "apply_operation (AddHit h l) this = snd (AddCaloHit h l this)"
| "apply_operation (RemoveHit h l) this = snd (RemoveCaloHit h l this)"

fun run_operations ::
  "'h layer_operation list \<Rightarrow> 'h OrderedCaloHitList \<Rightarrow> 'h OrderedCaloHitList" where
  "run_operations [] this = this"
| "run_operations (operation # rest) this = run_operations rest (apply_operation operation this)"

text \<open>
  The representation invariant: layers strictly ascending, every bucket holds each of its
  hits once, no bucket is empty.
\<close>

definition layers_ascending :: "'h OrderedCaloHitList \<Rightarrow> bool" where
  "layers_ascending this = sorted_wrt (<) (map fst this)"

definition buckets_distinct :: "'h OrderedCaloHitList \<Rightarrow> bool" where
  "buckets_distinct this = list_all (\<lambda>entry. distinct (snd entry)) this"

definition no_empty_bucket :: "'h OrderedCaloHitList \<Rightarrow> bool" where
  "no_empty_bucket this = list_all (\<lambda>entry. snd entry \<noteq> []) this"

text \<open>
  The specification's view of the same operations, to compare the container with: the
  insertion log, the list of the (hit, layer) pairs the container holds in the order in which
  they were inserted. An insertion of a pair that is held changes nothing, a removal takes
  the pair out. \<open>flattenOrdered\<close> reads the log "in non-decreasing layer order; within a
  layer, insertion order is preserved": it sorts the log by layer, keeping the order of the
  log among the pairs of one layer (\<open>sort_key\<close> is stable), and returns the hits.
\<close>

fun log_operation ::
  "'h layer_operation \<Rightarrow> ('h \<times> PseudoLayer) list \<Rightarrow> ('h \<times> PseudoLayer) list" where
  "log_operation (AddHit h l) log = (if (h, l) \<in> set log then log else log @ [(h, l)])"
| "log_operation (RemoveHit h l) log = remove1 (h, l) log"

fun insertion_log ::
  "'h layer_operation list \<Rightarrow> ('h \<times> PseudoLayer) list \<Rightarrow> ('h \<times> PseudoLayer) list" where
  "insertion_log [] log = log"
| "insertion_log (operation # rest) log = insertion_log rest (log_operation operation log)"

definition flattenOrdered :: "('h \<times> PseudoLayer) list \<Rightarrow> 'h list" where
  "flattenOrdered log = map fst (sort_key snd log)"

text \<open>The hits of a container with their layers, in the order of iteration.\<close>

definition layer_entries :: "'h OrderedCaloHitList \<Rightarrow> ('h \<times> PseudoLayer) list" where
  "layer_entries this = concat (map (\<lambda>entry. map (\<lambda>h. (h, fst entry)) (snd entry)) this)"

text \<open>A container holds a log when each layer's bucket is that layer's part of the log.\<close>

definition holds_log :: "'h OrderedCaloHitList \<Rightarrow> ('h \<times> PseudoLayer) list \<Rightarrow> bool" where
  "holds_log this log =
     (\<forall>l. filter (\<lambda>p. snd p = l) log
            = map (\<lambda>h. (h, l)) (case map_of this l of None \<Rightarrow> [] | Some bucket \<Rightarrow> bucket))"

section \<open>TrackManager\<close>

text \<open>
  The data members of \<^verbatim>\<open>TrackManager\<close> that the list bookkeeping uses. An algorithm is
  known by its address (any type \<open>'alg\<close>); a track list is kept as a value of type \<open>'tl\<close>.
\<close>

record AlgorithmInfo =
  m_parentListName :: string
  m_temporaryListNames :: "string set"
  m_numberOfListsCreated :: "32 word"

record ('alg, 'tl) TrackManager =
  m_nameToTrackListMap :: "string \<rightharpoonup> 'tl"
  m_algorithmInfoMap :: "'alg \<rightharpoonup> AlgorithmInfo"
  m_currentListName :: string
  m_savedLists :: "string set"

definition GetCurrentListName :: "('alg, 'tl) TrackManager \<Rightarrow> string \<Rightarrow> StatusCode \<times> string" where
  "GetCurrentListName this trackListName =
     (if m_currentListName this = [] then (STATUS_CODE_NOT_INITIALIZED, trackListName)
      else (STATUS_CODE_SUCCESS, m_currentListName this))"

definition GetAlgorithmInputListName ::
  "('alg, 'tl) TrackManager \<Rightarrow> 'alg \<Rightarrow> string \<Rightarrow> StatusCode \<times> string" where
  "GetAlgorithmInputListName this pAlgorithm trackListName =
     (case m_algorithmInfoMap this pAlgorithm of
        None \<Rightarrow> GetCurrentListName this trackListName
      | Some info \<Rightarrow> (STATUS_CODE_SUCCESS, m_parentListName info))"

text \<open>
  Modelled from the spec: the body of \<^verbatim>\<open>TrackManager::SaveList\<close> (and of
  \<^verbatim>\<open>InputObjectManager::SaveList\<close>) is not among the sources, only its declaration is.
  The specification: "creates a new named list from the given collection of references; fails
  AlreadyPresent if a list by that name already exists"; a saved list is "a list explicitly
  persisted under a name", which \<open>m_savedLists\<close> ("the set of saved track lists") records.
\<close>

definition SaveList ::
  "('alg, 'tl) TrackManager \<Rightarrow> 'tl \<Rightarrow> string \<Rightarrow> StatusCode \<times> ('alg, 'tl) TrackManager" where
  "SaveList this trackList newListName =
     (if m_nameToTrackListMap this newListName \<noteq> None then (STATUS_CODE_ALREADY_PRESENT, this)
      else (STATUS_CODE_SUCCESS,
            this\<lparr>m_nameToTrackListMap := (m_nameToTrackListMap this)(newListName \<mapsto> trackList),
                 m_savedLists := insert newListName (m_savedLists this)\<rparr>))"

section \<open>FragmentRemovalHelper\<close>

text \<open>
  What the helper reads of a cluster: \<^verbatim>\<open>GetNCaloHits()\<close> and
  \<^verbatim>\<open>GetOrderedCaloHitList()\<close>.
\<close>

record 'h Cluster =
  GetNCaloHits :: "32 word"
  GetOrderedCaloHitList :: "'h OrderedCaloHitList"

text \<open>
  The two fraction functions return either the literal \<^verbatim>\<open>0.\<close> or the quotient
  \<^verbatim>\<open>static_cast<float>(n) / static_cast<float>(d)\<close> of two unsigned counters. The result
  is kept as that expression, so that the divisor stays visible.
\<close>

datatype fraction = FloatZero | FloatQuotient "32 word" "32 word"

text \<open>
  \<open>GetFractionOfCloseHits\<close>. The geometry is a parameter: \<open>isClose hitI hitJ\<close> is the test
  \<^verbatim>\<open>distanceSquared < distanceThresholdSquared\<close> on the two hit positions. The loops over
  cluster J carry \<^verbatim>\<open>isCloseHit\<close> and \<^verbatim>\<open>nCloseHits\<close> and stop at the first close hit.
\<close>

fun closeHits_hitsJ ::
  "('h \<Rightarrow> 'h \<Rightarrow> bool) \<Rightarrow> 'h \<Rightarrow> 'h CaloHitList \<Rightarrow> bool \<Rightarrow> 32 word \<Rightarrow> bool \<times> 32 word" where
  "closeHits_hitsJ isClose hitI [] isCloseHit nCloseHits = (isCloseHit, nCloseHits)"
| "closeHits_hitsJ isClose hitI (hitJ # rest) isCloseHit nCloseHits =
     (if isClose hitI hitJ then (True, nCloseHits + 1)
      else closeHits_hitsJ isClose hitI rest isCloseHit nCloseHits)"

fun closeHits_layersJ ::
  "('h \<Rightarrow> 'h \<Rightarrow> bool) \<Rightarrow> 'h \<Rightarrow> 'h OrderedCaloHitList \<Rightarrow> bool \<Rightarrow> 32 word \<Rightarrow> bool \<times> 32 word" where
  "closeHits_layersJ isClose hitI [] isCloseHit nCloseHits = (isCloseHit, nCloseHits)"
| "closeHits_layersJ isClose hitI ((layerJ, hitsJ) # rest) isCloseHit nCloseHits =
     (case closeHits_hitsJ isClose hitI hitsJ isCloseHit nCloseHits of
        (isCloseHit', nCloseHits') \<Rightarrow>
          if isCloseHit' then (isCloseHit', nCloseHits')
          else closeHits_layersJ isClose hitI rest isCloseHit' nCloseHits')"

fun closeHits_hitsI ::
  "('h \<Rightarrow> 'h \<Rightarrow> bool) \<Rightarrow> 'h OrderedCaloHitList \<Rightarrow> 'h CaloHitList \<Rightarrow> 32 word \<Rightarrow> 32 word" where
  "closeHits_hitsI isClose orderedCaloHitListJ [] nCloseHits = nCloseHits"
| "closeHits_hitsI isClose orderedCaloHitListJ (hitI # rest) nCloseHits =
     closeHits_hitsI isClose orderedCaloHitListJ rest
       (snd (closeHits_layersJ isClose hitI orderedCaloHitListJ False nCloseHits))"

fun closeHits_layersI ::
  "('h \<Rightarrow> 'h \<Rightarrow> bool) \<Rightarrow> 'h OrderedCaloHitList \<Rightarrow> 'h OrderedCaloHitList \<Rightarrow> 32 word \<Rightarrow> 32 word" where
  "closeHits_layersI isClose orderedCaloHitListJ [] nCloseHits = nCloseHits"
| "closeHits_layersI isClose orderedCaloHitListJ ((layerI, hitsI) # rest) nCloseHits =
     closeHits_layersI isClose orderedCaloHitListJ rest
       (closeHits_hitsI isClose orderedCaloHitListJ hitsI nCloseHits)"

definition GetFractionOfCloseHits ::
  "'h Cluster \<Rightarrow> 'h Cluster \<Rightarrow> ('h \<Rightarrow> 'h \<Rightarrow> bool) \<Rightarrow> fraction" where
  "GetFractionOfCloseHits pClusterI pClusterJ isClose =
     (let nCaloHitsI = GetNCaloHits pClusterI in
      if 0 = nCaloHitsI then FloatZero
      else FloatQuotient
             (closeHits_layersI isClose (GetOrderedCaloHitList pClusterJ)
                (GetOrderedCaloHitList pClusterI) 0)
             nCaloHitsI)"

text \<open>
  \<open>GetFractionOfHitsInCone\<close>, the overload taking apex and direction, to which the other
  two delegate. \<open>inCone hit\<close> is the test \<^verbatim>\<open>cosTheta > coneCosineHalfAngle\<close> for the cone
  given.
\<close>

fun hitsInCone_hits :: "('h \<Rightarrow> bool) \<Rightarrow> 'h CaloHitList \<Rightarrow> 32 word \<Rightarrow> 32 word" where
  "hitsInCone_hits inCone [] nHitsInCone = nHitsInCone"
| "hitsInCone_hits inCone (hit # rest) nHitsInCone =
     hitsInCone_hits inCone rest (if inCone hit then nHitsInCone + 1 else nHitsInCone)"

fun hitsInCone_layers :: "('h \<Rightarrow> bool) \<Rightarrow> 'h OrderedCaloHitList \<Rightarrow> 32 word \<Rightarrow> 32 word" where
  "hitsInCone_layers inCone [] nHitsInCone = nHitsInCone"
| "hitsInCone_layers inCone ((layer, pCaloHitList) # rest) nHitsInCone =
     hitsInCone_layers inCone rest (hitsInCone_hits inCone pCaloHitList nHitsInCone)"

definition GetFractionOfHitsInCone :: "'h Cluster \<Rightarrow> ('h \<Rightarrow> bool) \<Rightarrow> fraction" where
  "GetFractionOfHitsInCone pCluster inCone =
     (let nCaloHits = GetNCaloHits pCluster in
      if 0 = nCaloHits then FloatZero
      else FloatQuotient (hitsInCone_layers inCone (GetOrderedCaloHitList pCluster) 0) nCaloHits)"

text \<open>
  \<open>GetClusterHelixDistance\<close>. The \<^verbatim>\<open>float\<close> arithmetic is a parameter, a record of the
  operations the function uses on a type \<open>'f\<close> of float values; so is the helix, as the
  function from a hit to the status of \<^verbatim>\<open>GetDistanceToPoint\<close> and the z component of the
  distance vector.
\<close>

record 'f float_arith =
  float_zero :: 'f
  float_max :: 'f
  float_less :: "'f \<Rightarrow> 'f \<Rightarrow> bool"
  float_add :: "'f \<Rightarrow> 'f \<Rightarrow> 'f"
  float_div_count :: "'f \<Rightarrow> 32 word \<Rightarrow> 'f"

text \<open>The loop over one layer's hits; \<open>Inl\<close> is the early return of a failed distance.\<close>

fun helixDistance_hits ::
  "'f float_arith \<Rightarrow> ('h \<Rightarrow> StatusCode \<times> 'f) \<Rightarrow> 'h CaloHitList \<Rightarrow> 32 word \<Rightarrow> 'f \<Rightarrow> 'f
     \<Rightarrow> StatusCode + (32 word \<times> 'f \<times> 'f)" where
  "helixDistance_hits fa GetDistanceToPoint [] nHits sumDistanceToHits minDistanceToHit =
     Inr (nHits, sumDistanceToHits, minDistanceToHit)"
| "helixDistance_hits fa GetDistanceToPoint (hit # rest) nHits sumDistanceToHits minDistanceToHit =
     (case GetDistanceToPoint hit of
        (statusCode, distance) \<Rightarrow>
          if statusCode \<noteq> STATUS_CODE_SUCCESS then Inl statusCode
          else helixDistance_hits fa GetDistanceToPoint rest (nHits + 1)
                 (float_add fa sumDistanceToHits distance)
                 (if float_less fa distance minDistanceToHit then distance else minDistanceToHit))"

text \<open>
  The loop over the layers \<^verbatim>\<open>for (iLayer = startLayer; iLayer <= endLayer; ++iLayer)\<close>. The
  counter wraps at \<open>2^32\<close>, so with \<open>endLayer\<close> the largest value the condition never fails
  and the loop need not end: \<open>None\<close> is the loop that does not return.
\<close>

partial_function (option) helixDistance_layers ::
  "'f float_arith \<Rightarrow> ('h \<Rightarrow> StatusCode \<times> 'f) \<Rightarrow> 'h OrderedCaloHitList \<Rightarrow> PseudoLayer \<Rightarrow> 32 word
     \<Rightarrow> PseudoLayer \<Rightarrow> 32 word \<Rightarrow> 32 word \<Rightarrow> 'f \<Rightarrow> 'f \<Rightarrow> (StatusCode + (32 word \<times> 'f \<times> 'f)) option" where
  "helixDistance_layers fa GetDistanceToPoint orderedCaloHitList endLayer maxOccupiedLayers
       iLayer nHits nOccupiedLayers sumDistanceToHits minDistanceToHit =
     (if iLayer \<le> endLayer then
        (case map_find iLayer orderedCaloHitList of
           None \<Rightarrow>
             helixDistance_layers fa GetDistanceToPoint orderedCaloHitList endLayer maxOccupiedLayers
               (iLayer + 1) nHits nOccupiedLayers sumDistanceToHits minDistanceToHit
         | Some hits \<Rightarrow>
             if nOccupiedLayers + 1 > maxOccupiedLayers
             then Some (Inr (nHits, sumDistanceToHits, minDistanceToHit))
             else (case helixDistance_hits fa GetDistanceToPoint hits nHits sumDistanceToHits
                          minDistanceToHit of
                     Inl statusCode \<Rightarrow> Some (Inl statusCode)
                   | Inr (nHits', sumDistanceToHits', minDistanceToHit') \<Rightarrow>
                       helixDistance_layers fa GetDistanceToPoint orderedCaloHitList endLayer
                         maxOccupiedLayers (iLayer + 1) nHits' (nOccupiedLayers + 1)
                         sumDistanceToHits' minDistanceToHit'))
      else Some (Inr (nHits, sumDistanceToHits, minDistanceToHit)))"

text \<open>
  The two output parameters \<open>closestDistanceToHit\<close> and \<open>meanDistanceToHits\<close> are passed in
  and returned after the status code.
\<close>

definition GetClusterHelixDistance ::
  "'f float_arith \<Rightarrow> 'h Cluster \<Rightarrow> ('h \<Rightarrow> StatusCode \<times> 'f) \<Rightarrow> PseudoLayer \<Rightarrow> PseudoLayer \<Rightarrow> 32 word
     \<Rightarrow> 'f \<Rightarrow> 'f \<Rightarrow> (StatusCode \<times> 'f \<times> 'f) option" where
  "GetClusterHelixDistance fa pCluster GetDistanceToPoint startLayer endLayer maxOccupiedLayers
       closestDistanceToHit meanDistanceToHits =
     (if startLayer > endLayer
      then Some (STATUS_CODE_INVALID_PARAMETER, closestDistanceToHit, meanDistanceToHits)
      else (case helixDistance_layers fa GetDistanceToPoint (GetOrderedCaloHitList pCluster)
                   endLayer maxOccupiedLayers startLayer 0 0 (float_zero fa) (float_max fa) of
              None \<Rightarrow> None
            | Some (Inl statusCode) \<Rightarrow> Some (statusCode, closestDistanceToHit, meanDistanceToHits)
            | Some (Inr (nHits, sumDistanceToHits, minDistanceToHit)) \<Rightarrow>
                if 0 \<noteq> nHits
                then Some (STATUS_CODE_SUCCESS, minDistanceToHit,
                           float_div_count fa sumDistanceToHits nHits)
                else Some (STATUS_CODE_NOT_FOUND, closestDistanceToHit, meanDistanceToHits)))"

section \<open>Example data\<close>

text \<open>Concrete managers, clusters and float operations on which the theorems are instantiated.\<close>

definition example_manager :: "(nat, nat list) TrackManager" where
  "example_manager =
     \<lparr>m_nameToTrackListMap = [''input'' \<mapsto> [1, 2, 3]],
      m_algorithmInfoMap =
        [7 \<mapsto> \<lparr>m_parentListName = ''parent'', m_temporaryListNames = {},
                m_numberOfListsCreated = 0\<rparr>],
      m_currentListName = ''input'',
      m_savedLists = {}\<rparr>"

definition int_arith :: "int float_arith" where
  "int_arith =
     \<lparr>float_zero = 0, float_max = 1000000, float_less = (<), float_add = (+),
      float_div_count = (\<lambda>s n. s div uint n)\<rparr>"

definition example_cluster :: "nat Cluster" where
  "example_cluster = \<lparr>GetNCaloHits = 3, GetOrderedCaloHitList = [(5, [1, 2]), (7, [3])]\<rparr>"

definition empty_count_cluster :: "nat Cluster" where
  "empty_count_cluster = \<lparr>GetNCaloHits = 0, GetOrderedCaloHitList = [(5, [1, 2]), (7, [3])]\<rparr>"

definition example_distance :: "nat \<Rightarrow> StatusCode \<times> int" where
  "example_distance hit = (STATUS_CODE_SUCCESS, 10 * int hit)"

section \<open>Facts about the containers\<close>

lemma map_of_insort_key_fresh:
  "map_of m k = None \<Longrightarrow> map_of (insort_key fst (k, v) m) = (map_of m)(k \<mapsto> v)"
  by (induction m) (auto simp: fun_eq_iff)

lemma map_of_bucket_store:
  "map_of (bucket_store k v m) = (if map_of m k = None then map_of m else (map_of m)(k \<mapsto> v))"
  by (induction m) (auto simp: fun_eq_iff)

lemma map_of_map_erase: "map_of (map_erase k m) = (map_of m)(k := None)"
  by (induction m) (auto simp: map_erase_def fun_eq_iff)

lemma keys_bucket_store: "map fst (bucket_store k v m) = map fst m"
  by (induction m) auto

lemma keys_insort_key: "map fst (insort_key fst (k, v) m) = insort k (map fst m)"
  by (induction m) auto

lemma keys_map_erase: "map fst (map_erase k m) = filter (\<lambda>a. a \<noteq> k) (map fst m)"
  by (induction m) (auto simp: map_erase_def)

lemma list_all_bucket_store:
  "list_all P m \<Longrightarrow> P (k, v) \<Longrightarrow> list_all P (bucket_store k v m)"
  by (induction m) auto

lemma list_all_insort_key:
  "list_all P m \<Longrightarrow> P x \<Longrightarrow> list_all P (insort_key f x m)"
  by (induction m) auto

lemma list_all_map_erase: "list_all P m \<Longrightarrow> list_all P (map_erase k m)"
  by (induction m) (auto simp: map_erase_def)

lemma list_all_map_of: "list_all P m \<Longrightarrow> map_of m k = Some v \<Longrightarrow> P (k, v)"
  by (induction m) (auto split: if_splits)

lemma singleton_bucket:
  assumes "distinct b" "set b = {h}"
  shows "b = [h]"
proof (cases b)
  case Nil
  then show ?thesis using assms by simp
next
  case (Cons x xs)
  with assms have "x = h" "set xs \<subseteq> {h}" "x \<notin> set xs"
    by auto
  then have "xs = []" by (cases xs) auto
  with \<open>x = h\<close> Cons show ?thesis by simp
qed

lemmas container_defs =
  AddCaloHit_def RemoveCaloHit_def GetCaloHitsInPseudoLayer_def map_find_def map_insert_def
  map_erase_def set_insert_def set_find_def set_erase_def

section \<open>The representation invariant\<close>

text \<open>
  Insertion and removal keep each part of the invariant, so every container reached from
  the empty one by insertions and removals satisfies it.
\<close>

lemma layers_ascending_AddCaloHit:
  "layers_ascending this \<Longrightarrow> layers_ascending (snd (AddCaloHit h l this))"
  by (auto simp: layers_ascending_def AddCaloHit_def map_find_def set_insert_def map_insert_def
      keys_insort_key keys_bucket_store strict_sorted_iff sorted_insort distinct_insort
      map_of_eq_None_iff split: option.splits)

lemma layers_ascending_RemoveCaloHit:
  "layers_ascending this \<Longrightarrow> layers_ascending (snd (RemoveCaloHit h l this))"
  by (auto simp: layers_ascending_def RemoveCaloHit_def map_find_def Let_def
      keys_map_erase keys_bucket_store sorted_wrt_filter
      split: option.splits)

lemma buckets_distinct_AddCaloHit:
  "buckets_distinct this \<Longrightarrow> buckets_distinct (snd (AddCaloHit h l this))"
  by (auto simp: buckets_distinct_def AddCaloHit_def map_find_def set_insert_def map_insert_def
      intro!: list_all_bucket_store list_all_insort_key dest: list_all_map_of split: option.splits)

lemma buckets_distinct_RemoveCaloHit:
  "buckets_distinct this \<Longrightarrow> buckets_distinct (snd (RemoveCaloHit h l this))"
  by (auto simp: buckets_distinct_def RemoveCaloHit_def map_find_def Let_def set_erase_def
      intro!: list_all_bucket_store list_all_map_erase dest: list_all_map_of split: option.splits)

lemma no_empty_bucket_AddCaloHit:
  "no_empty_bucket this \<Longrightarrow> no_empty_bucket (snd (AddCaloHit h l this))"
  by (auto simp: no_empty_bucket_def AddCaloHit_def map_find_def set_insert_def map_insert_def
      intro!: list_all_bucket_store list_all_insort_key split: option.splits)

lemma no_empty_bucket_RemoveCaloHit:
  "no_empty_bucket this \<Longrightarrow> no_empty_bucket (snd (RemoveCaloHit h l this))"
  by (auto simp: no_empty_bucket_def RemoveCaloHit_def map_find_def Let_def
      intro!: list_all_bucket_store list_all_map_erase split: option.splits)

lemma run_operations_invariant:
  "layers_ascending this \<Longrightarrow> buckets_distinct this \<Longrightarrow> no_empty_bucket this \<Longrightarrow>
     layers_ascending (run_operations ops this) \<and> buckets_distinct (run_operations ops this)
     \<and> no_empty_bucket (run_operations ops this)"
proof (induction ops arbitrary: this)
  case Nil
  then show ?case by simp
next
  case (Cons operation rest)
  have "layers_ascending (apply_operation operation this)"
    "buckets_distinct (apply_operation operation this)"
    "no_empty_bucket (apply_operation operation this)"
    using Cons.prems
    by (cases operation; simp add: layers_ascending_AddCaloHit layers_ascending_RemoveCaloHit
        buckets_distinct_AddCaloHit buckets_distinct_RemoveCaloHit
        no_empty_bucket_AddCaloHit no_empty_bucket_RemoveCaloHit)+
  then show ?case using Cons.IH by simp
qed

lemma reachable_invariant:
  "layers_ascending (run_operations ops []) \<and> buckets_distinct (run_operations ops [])
     \<and> no_empty_bucket (run_operations ops [])"
  by (rule run_operations_invariant)
    (simp_all add: layers_ascending_def buckets_distinct_def no_empty_bucket_def)

section \<open>Ordered calo hit list: buckets are never empty\<close>

text \<open>
  Claim C1. In every container built from the empty one by any sequence of \<open>AddCaloHit\<close>
  and \<open>RemoveCaloHit\<close> calls, no bucket is empty: every layer that \<open>find\<close> locates has a
  non-empty bucket. When \<open>RemoveCaloHit\<close> removes the only hit of a layer's bucket, it
  returns success and erases the layer, and a following \<open>GetCaloHitsInPseudoLayer\<close> for
  that layer returns \<open>STATUS_CODE_NOT_FOUND\<close>, leaving its output parameter as it was.
\<close>

theorem buckets_never_empty:
  fixes ops ops' :: "'h layer_operation list"
  shows "no_empty_bucket (run_operations ops [])
   \<and> (\<forall>layer bucket. map_find layer (run_operations ops []) = Some bucket \<longrightarrow> bucket \<noteq> [])
   \<and> (map_find l (run_operations ops' []) = Some b \<and> set b = {h} \<longrightarrow>
        RemoveCaloHit h l (run_operations ops' [])
          = (STATUS_CODE_SUCCESS, map_erase l (run_operations ops' []))
        \<and> GetCaloHitsInPseudoLayer l (snd (RemoveCaloHit h l (run_operations ops' []))) pCaloHitList
            = (STATUS_CODE_NOT_FOUND, pCaloHitList))"
proof (intro conjI allI impI)
  show ne: "no_empty_bucket (run_operations ops [])" for ops :: "'h layer_operation list"
    using reachable_invariant by blast
  show "bucket \<noteq> []" if "map_find layer (run_operations ops []) = Some bucket" for layer bucket
    using list_all_map_of [OF ne [unfolded no_empty_bucket_def], of ops layer bucket] that
    by (simp add: map_find_def)
next
  let ?c = "run_operations ops' []"
  assume a: "map_find l ?c = Some b \<and> set b = {h}"
  have "list_all (\<lambda>entry. distinct (snd entry)) ?c"
    using reachable_invariant [of ops'] by (simp add: buckets_distinct_def)
  moreover have "map_of ?c l = Some b" using a by (simp add: map_find_def)
  ultimately have "distinct (snd (l, b))" by (rule list_all_map_of)
  then have "distinct b" by simp
  moreover have "set b = {h}" using a by simp
  ultimately have b: "b = [h]" by (rule singleton_bucket)
  show r: "RemoveCaloHit h l ?c = (STATUS_CODE_SUCCESS, map_erase l ?c)"
    using a b by (simp add: RemoveCaloHit_def set_find_def set_erase_def)
  show "GetCaloHitsInPseudoLayer l (snd (RemoveCaloHit h l ?c)) pCaloHitList
            = (STATUS_CODE_NOT_FOUND, pCaloHitList)"
    by (simp add: r GetCaloHitsInPseudoLayer_def map_find_def map_of_map_erase)
qed

text \<open>
  The theorem of claim C1 at two concrete containers: one emptied again by removals, and one
  whose layer 7 holds the single hit 3.
\<close>

theorem buckets_never_empty_witness:
  "no_empty_bucket (run_operations [AddHit (1::nat) 5, AddHit 2 5, RemoveHit 1 5, RemoveHit 2 5] [])
   \<and> map_find 7 (run_operations [AddHit (3::nat) 7] []) = Some [3] \<and> set [3::nat] = {3}
   \<and> RemoveCaloHit 3 7 (run_operations [AddHit (3::nat) 7] []) = (STATUS_CODE_SUCCESS, [])
   \<and> GetCaloHitsInPseudoLayer 7 (snd (RemoveCaloHit 3 7 (run_operations [AddHit (3::nat) 7] []))) [9]
       = (STATUS_CODE_NOT_FOUND, [9])"
  using buckets_never_empty [where ops = "[AddHit (1::nat) 5, AddHit 2 5, RemoveHit 1 5, RemoveHit 2 5]"
      and ops' = "[AddHit (3::nat) 7]" and l = 7 and b = "[3]" and h = 3 and pCaloHitList = "[9]"]
  by (simp add: container_defs)

section \<open>Ordered calo hit list: the flattened vector\<close>

text \<open>
  The container against its insertion log: insertion and removal keep each layer's bucket
  equal to that layer's part of the log, and the hits of a container with ascending layers,
  read in the order of iteration, are the log sorted by layer.
\<close>

lemma push_back_bucket_append: "push_back_bucket hits caloHitVector = caloHitVector @ hits"
  by (induction hits arbitrary: caloHitVector) auto

lemma GetCaloHitVector_concat:
  "GetCaloHitVector this caloHitVector = caloHitVector @ concat (map snd this)"
  by (induction this arbitrary: caloHitVector) (auto simp: push_back_bucket_append)

lemma layer_entries_Nil: "layer_entries [] = []"
  by (simp add: layer_entries_def)

lemma layer_entries_Cons:
  "layer_entries ((l, b) # this) = map (\<lambda>h. (h, l)) b @ layer_entries this"
  by (simp add: layer_entries_def)

lemma hits_layer_entries: "map fst (layer_entries this) = concat (map snd this)"
  by (induction this) (auto simp: layer_entries_Nil layer_entries_Cons comp_def)

lemma layers_layer_entries: "snd ` set (layer_entries this) \<subseteq> set (map fst this)"
  unfolding layer_entries_def by force

lemma sorted_layer_entries:
  "layers_ascending this \<Longrightarrow> sorted (map snd (layer_entries this))"
proof (induction this)
  case Nil
  then show ?case by (simp add: layer_entries_Nil)
next
  case (Cons entry this)
  obtain l b where entry: "entry = (l, b)" by (cases entry)
  from Cons.prems entry have asc: "layers_ascending this" and above: "\<forall>k \<in> set (map fst this). l < k"
    by (simp_all add: layers_ascending_def)
  have "\<forall>k \<in> set (map snd (layer_entries this)). l \<le> k"
    using above layers_layer_entries [of this] by fastforce
  moreover have "map snd (map (\<lambda>h. (h, l)) b) = replicate (length b) l"
    by (simp add: comp_def map_replicate_const)
  ultimately show ?case
    using Cons.IH [OF asc] entry
    by (auto simp: layer_entries_Cons sorted_append)
qed

lemma filter_layer_entries:
  "layers_ascending this \<Longrightarrow>
     filter (\<lambda>p. snd p = l) (layer_entries this)
       = map (\<lambda>h. (h, l)) (case map_of this l of None \<Rightarrow> [] | Some bucket \<Rightarrow> bucket)"
proof (induction this)
  case Nil
  then show ?case by (simp add: layer_entries_Nil)
next
  case (Cons entry this)
  obtain a b where entry: "entry = (a, b)" by (cases entry)
  from Cons.prems entry have asc: "layers_ascending this" and above: "\<forall>k \<in> set (map fst this). a < k"
    by (simp_all add: layers_ascending_def)
  show ?case
  proof (cases "a = l")
    case True
    have "l \<notin> snd ` set (layer_entries this)"
      using above layers_layer_entries [of this] True by fastforce
    then have "filter (\<lambda>p. snd p = l) (layer_entries this) = []"
      by (auto simp: filter_empty_conv)
    then show ?thesis using True entry
      by (simp add: layer_entries_Cons filter_map comp_def)
  next
    case False
    then have "filter (\<lambda>p. snd p = l) (map (\<lambda>h. (h, a)) b) = []"
      by (auto simp: filter_empty_conv)
    then show ?thesis using False entry Cons.IH [OF asc]
      by (simp add: layer_entries_Cons)
  qed
qed

lemma holds_log_member:
  assumes "holds_log this log"
  shows "(h, l) \<in> set log \<longleftrightarrow> h \<in> set (case map_of this l of None \<Rightarrow> [] | Some bucket \<Rightarrow> bucket)"
proof -
  have "(h, l) \<in> set log \<longleftrightarrow> (h, l) \<in> set (filter (\<lambda>p. snd p = l) log)"
    by simp
  also have "\<dots> \<longleftrightarrow> (h, l) \<in> set (map (\<lambda>h. (h, l))
      (case map_of this l of None \<Rightarrow> [] | Some bucket \<Rightarrow> bucket))"
    using assms unfolding holds_log_def by metis
  also have "\<dots> \<longleftrightarrow> h \<in> set (case map_of this l of None \<Rightarrow> [] | Some bucket \<Rightarrow> bucket)"
    by auto
  finally show ?thesis .
qed

lemma remove1_tagged: "remove1 (h, l) (map (\<lambda>h. (h, l)) b) = map (\<lambda>h. (h, l)) (remove1 h b)"
  by (induction b) auto

lemma holds_log_AddCaloHit:
  assumes "holds_log this log"
  shows "holds_log (snd (AddCaloHit h l this)) (log_operation (AddHit h l) log)"
proof (cases "map_of this l")
  case None
  then have absent: "(h, l) \<notin> set log"
    using holds_log_member [OF assms, of h l] by simp
  have "snd (AddCaloHit h l this) = insort_key fst (l, [h]) this"
    using None by (simp add: AddCaloHit_def map_find_def set_insert_def map_insert_def)
  then have m: "map_of (snd (AddCaloHit h l this)) = (map_of this)(l \<mapsto> [h])"
    using None by (simp add: map_of_insort_key_fresh)
  show ?thesis
    using assms absent None unfolding holds_log_def m by auto
next
  case (Some b)
  show ?thesis
  proof (cases "h \<in> set b")
    case True
    then have "(h, l) \<in> set log"
      using holds_log_member [OF assms, of h l] Some by simp
    moreover have "snd (AddCaloHit h l this) = this"
      using Some True by (simp add: AddCaloHit_def map_find_def set_insert_def)
    ultimately show ?thesis using assms by simp
  next
    case False
    then have absent: "(h, l) \<notin> set log"
      using holds_log_member [OF assms, of h l] Some by simp
    have "snd (AddCaloHit h l this) = bucket_store l (b @ [h]) this"
      using Some False by (simp add: AddCaloHit_def map_find_def set_insert_def)
    then have m: "map_of (snd (AddCaloHit h l this)) = (map_of this)(l \<mapsto> b @ [h])"
      using Some by (simp add: map_of_bucket_store)
    show ?thesis
      using assms absent Some unfolding holds_log_def m by auto
  qed
qed

lemma holds_log_RemoveCaloHit:
  assumes "holds_log this log"
  shows "holds_log (snd (RemoveCaloHit h l this)) (log_operation (RemoveHit h l) log)"
proof (cases "h \<in> set (case map_of this l of None \<Rightarrow> [] | Some bucket \<Rightarrow> bucket)")
  case False
  then have "(h, l) \<notin> set log"
    using holds_log_member [OF assms, of h l] by simp
  then have "remove1 (h, l) log = log" by (rule remove1_idem)
  moreover have "snd (RemoveCaloHit h l this) = this"
    using False by (simp add: RemoveCaloHit_def map_find_def set_find_def split: option.splits)
  ultimately show ?thesis using assms by simp
next
  case True
  then obtain b where Some: "map_of this l = Some b" and mem: "h \<in> set b"
    by (cases "map_of this l") auto
  have m: "map_of (snd (RemoveCaloHit h l this))
             = (map_of this)(l := if remove1 h b = [] then None else Some (remove1 h b))"
    using Some mem
    by (simp add: RemoveCaloHit_def map_find_def set_find_def set_erase_def
        map_of_map_erase map_of_bucket_store)
  have "filter (\<lambda>p. snd p = k) (remove1 (h, l) log)
          = map (\<lambda>h. (h, k)) (case map_of (snd (RemoveCaloHit h l this)) k of
               None \<Rightarrow> [] | Some bucket \<Rightarrow> bucket)" for k
  proof (cases "k = l")
    case True
    have "filter (\<lambda>p. snd p = l) (remove1 (h, l) log) = map (\<lambda>h. (h, l)) (remove1 h b)"
      using assms Some unfolding holds_log_def
      by (simp add: filter_remove1 remove1_tagged)
    then show ?thesis using True by (simp add: m)
  next
    case False
    have "filter (\<lambda>p. snd p = k) (remove1 (h, l) log) = filter (\<lambda>p. snd p = k) log"
      using False by (simp add: filter_remove1)
    then show ?thesis using False assms unfolding holds_log_def by (simp add: m)
  qed
  then show ?thesis by (simp add: holds_log_def)
qed

lemma holds_log_run_operations:
  "holds_log this log \<Longrightarrow> holds_log (run_operations ops this) (insertion_log ops log)"
proof (induction ops arbitrary: this log)
  case Nil
  then show ?case by simp
next
  case (Cons operation rest)
  have "holds_log (apply_operation operation this) (log_operation operation log)"
    using Cons.prems
    by (cases operation) (simp_all only: apply_operation.simps holds_log_AddCaloHit
        holds_log_RemoveCaloHit)
  then show ?case using Cons.IH by simp
qed

lemma mset_eq_by_key:
  assumes "\<And>k. filter (\<lambda>x. f x = k) xs = filter (\<lambda>x. f x = k) ys"
  shows "mset xs = mset ys"
proof (rule multiset_eqI)
  fix a
  have c: "count (mset zs) a = length (filter ((=) a) (filter (\<lambda>x. f x = f a) zs))" for zs
    by (induction zs) auto
  show "count (mset xs) a = count (mset ys) a"
    unfolding c assms ..
qed

lemma layer_entries_sort_key:
  assumes "layers_ascending this" "holds_log this log"
  shows "layer_entries this = sort_key snd log"
proof -
  have f: "filter (\<lambda>p. snd p = k) (layer_entries this) = filter (\<lambda>p. snd p = k) log" for k
    using assms by (simp add: filter_layer_entries holds_log_def)
  have "sort_key snd log = layer_entries this"
  proof (rule properties_for_sort_key)
    show "mset (layer_entries this) = mset log"
      using f by (rule mset_eq_by_key)
    show "filter (\<lambda>x. snd k = snd x) (layer_entries this) = filter (\<lambda>x. snd k = snd x) log" for k
      using f [of "snd k"] by (simp add: eq_commute)
    show "sorted (map snd (layer_entries this))"
      using assms(1) by (rule sorted_layer_entries)
  qed
  then show ?thesis by simp
qed

text \<open>
  Claim C2. For every container built from the empty one by insertions and removals,
  \<open>GetCaloHitVector\<close> appends to the vector the hits the container holds, those of its
  insertion log, sorted by layer with the order of the log kept inside each layer: the
  hits come with non-decreasing layers, and the hits of any one layer come in the order
  in which they were inserted. Inserting two different hits \<open>h1\<close>, \<open>h2\<close> at layer 5 and
  \<open>h3\<close> at layer 7 into the empty container and flattening yields exactly \<open>[h1, h2, h3]\<close>.
\<close>

theorem GetCaloHitVector_order:
  fixes ops :: "'h layer_operation list" and h1 h2 h3 :: 'h
  shows "GetCaloHitVector (run_operations ops []) caloHitVector
           = caloHitVector @ flattenOrdered (insertion_log ops [])
   \<and> GetCaloHitVector (run_operations ops []) [] = map fst (layer_entries (run_operations ops []))
   \<and> sorted (map snd (layer_entries (run_operations ops [])))
   \<and> (\<forall>l. filter (\<lambda>p. snd p = l) (layer_entries (run_operations ops []))
            = filter (\<lambda>p. snd p = l) (insertion_log ops []))
   \<and> (h1 \<noteq> h2 \<longrightarrow>
         GetCaloHitVector (run_operations [AddHit h1 5, AddHit h2 5, AddHit h3 7] []) []
           = [h1, h2, h3])"
proof -
  let ?c = "run_operations ops []"
  have asc: "layers_ascending ?c"
    using reachable_invariant [of ops] by simp
  have "holds_log ([] :: 'h OrderedCaloHitList) []"
    by (simp add: holds_log_def)
  then have "holds_log ?c (insertion_log ops [])"
    by (rule holds_log_run_operations)
  with asc have e: "layer_entries ?c = sort_key snd (insertion_log ops [])"
    by (rule layer_entries_sort_key)
  have v: "GetCaloHitVector ?c vec = vec @ map fst (layer_entries ?c)" for vec
    by (simp add: GetCaloHitVector_concat hits_layer_entries)
  have "GetCaloHitVector ?c caloHitVector = caloHitVector @ flattenOrdered (insertion_log ops [])"
    by (simp add: v e flattenOrdered_def)
  moreover have "GetCaloHitVector ?c [] = map fst (layer_entries ?c)"
    by (simp add: v)
  moreover have "sorted (map snd (layer_entries ?c))"
    using asc by (rule sorted_layer_entries)
  moreover have "\<forall>l. filter (\<lambda>p. snd p = l) (layer_entries ?c)
                   = filter (\<lambda>p. snd p = l) (insertion_log ops [])"
    by (simp add: e sort_key_stable)
  moreover have "h1 \<noteq> h2 \<longrightarrow>
         GetCaloHitVector (run_operations [AddHit h1 5, AddHit h2 5, AddHit h3 7] []) []
           = [h1, h2, h3]"
    by (simp add: container_defs)
  ultimately show ?thesis by blast
qed

text \<open>
  The theorem of claim C2 at a container filled out of layer order, with a hit removed and
  inserted again, and at the three insertions of the claim with the hits 2, 1 and 3.
\<close>

theorem GetCaloHitVector_order_witness:
  "insertion_log [AddHit (2::nat) 7, AddHit 3 5, AddHit 1 5, RemoveHit 3 5, AddHit 3 5] []
     = [(2, 7), (1, 5), (3, 5)]
   \<and> GetCaloHitVector
        (run_operations [AddHit (2::nat) 7, AddHit 3 5, AddHit 1 5, RemoveHit 3 5, AddHit 3 5] []) []
       = [1, 3, 2]
   \<and> (2::nat) \<noteq> 1
   \<and> GetCaloHitVector (run_operations [AddHit (2::nat) 5, AddHit 1 5, AddHit 3 7] []) []
       = [2, 1, 3]"
proof -
  let ?ops = "[AddHit (2::nat) 7, AddHit 3 5, AddHit 1 5, RemoveHit 3 5, AddHit 3 5]"
  note t = GetCaloHitVector_order [where ops = ?ops and caloHitVector = "[]"
      and ?h1.0 = 2 and ?h2.0 = 1 and ?h3.0 = 3]
  have g: "insertion_log ?ops [] = [(2, 7), (1, 5), (3, 5)]"
    by simp
  have d: "(2::nat) \<noteq> 1"
    by simp
  have "GetCaloHitVector (run_operations ?ops []) [] = [] @ flattenOrdered (insertion_log ?ops [])"
    using t by blast
  then have c: "GetCaloHitVector (run_operations ?ops []) [] = [1, 3, 2]"
    unfolding g by (simp add: flattenOrdered_def)
  have e: "GetCaloHitVector (run_operations [AddHit (2::nat) 5, AddHit 1 5, AddHit 3 7] []) []
             = [2, 1, 3]"
    using t d by blast
  show ?thesis using g c d e by blast
qed

section \<open>Ordered calo hit list: insertion\<close>

text \<open>
  Claim C3. \<open>AddCaloHit\<close> returns \<open>STATUS_CODE_ALREADY_PRESENT\<close> if and only if the layer
  has a bucket that already holds the hit, and then leaves the container as it was. In
  every other case it returns \<open>STATUS_CODE_SUCCESS\<close>, the layer's bucket afterwards is the
  old bucket with the hit at its end (the bucket of the hit alone when the layer had none),
  and every other layer is found as before.
\<close>

theorem AddCaloHit_result:
  fixes h :: "'h"
  shows "(fst (AddCaloHit h l this) = STATUS_CODE_ALREADY_PRESENT
            \<longleftrightarrow> (case map_find l this of None \<Rightarrow> False | Some bucket \<Rightarrow> h \<in> set bucket))
   \<and> (fst (AddCaloHit h l this) = STATUS_CODE_ALREADY_PRESENT \<longrightarrow> snd (AddCaloHit h l this) = this)
   \<and> (fst (AddCaloHit h l this) \<noteq> STATUS_CODE_ALREADY_PRESENT \<longrightarrow>
         fst (AddCaloHit h l this) = STATUS_CODE_SUCCESS
         \<and> map_find l (snd (AddCaloHit h l this))
             = Some (case map_find l this of None \<Rightarrow> [h] | Some bucket \<Rightarrow> bucket @ [h])
         \<and> (\<forall>l'. l' \<noteq> l \<longrightarrow> map_find l' (snd (AddCaloHit h l this)) = map_find l' this))"
  by (cases "map_of this l")
    (simp_all add: AddCaloHit_def map_find_def set_insert_def map_insert_def
      map_of_insort_key_fresh map_of_bucket_store)

text \<open>The theorem of claim C3 at a hit already in layer 5 and at the same hit added to the absent layer 7.\<close>

theorem AddCaloHit_result_witness:
  "fst (AddCaloHit (2::nat) 5 [(5, [1, 2])]) = STATUS_CODE_ALREADY_PRESENT
   \<and> snd (AddCaloHit (2::nat) 5 [(5, [1, 2])]) = [(5, [1, 2])]
   \<and> fst (AddCaloHit (2::nat) 7 [(5, [1, 2])]) \<noteq> STATUS_CODE_ALREADY_PRESENT
   \<and> fst (AddCaloHit (2::nat) 7 [(5, [1, 2])]) = STATUS_CODE_SUCCESS
   \<and> map_find 7 (snd (AddCaloHit (2::nat) 7 [(5, [1, 2])])) = Some [2]
   \<and> map_find 5 (snd (AddCaloHit (2::nat) 7 [(5, [1, 2])])) = Some [1, 2]"
  using AddCaloHit_result [where h = "2::nat" and l = 5 and this = "[(5, [1, 2])]"]
    AddCaloHit_result [where h = "2::nat" and l = 7 and this = "[(5, [1, 2])]"]
  by (simp add: container_defs)

section \<open>Ordered calo hit list: removal of another container\<close>

lemma RemoveCaloHit_status:
  "fst (RemoveCaloHit h l this) = STATUS_CODE_SUCCESS
   \<or> fst (RemoveCaloHit h l this) = STATUS_CODE_NOT_FOUND"
  by (simp add: RemoveCaloHit_def Let_def split: option.splits)

lemma Remove_hits_completes:
  "Remove_hits hits layer this = (None, fold (\<lambda>h c. snd (RemoveCaloHit h layer c)) hits this)"
proof (induction hits arbitrary: this)
  case Nil
  then show ?case by simp
next
  case (Cons h hits)
  obtain statusCode this' where r: "RemoveCaloHit h layer this = (statusCode, this')"
    by (cases "RemoveCaloHit h layer this")
  with RemoveCaloHit_status [of h layer this]
  have "\<not> return_result_if_and_if_ne STATUS_CODE_SUCCESS STATUS_CODE_NOT_FOUND statusCode"
    by (auto simp: return_result_if_and_if_ne_def)
  with r Cons.IH [of this'] show ?case by simp
qed

lemma Remove_layers_completes:
  "Remove_layers rhs this
     = (None, fold (\<lambda>entry c. fold (\<lambda>h c'. snd (RemoveCaloHit h (fst entry) c')) (snd entry) c)
                rhs this)"
  by (induction rhs arbitrary: this) (auto simp: Remove_hits_completes)

text \<open>
  Claim C4. \<open>Remove\<close> performs \<open>RemoveCaloHit\<close> for every hit of every layer of the other
  container, in order, and returns \<open>STATUS_CODE_SUCCESS\<close>: each single removal returns
  \<open>STATUS_CODE_SUCCESS\<close> or \<open>STATUS_CODE_NOT_FOUND\<close>, and the early return is taken only
  for a status that is neither of the two.
\<close>

theorem Remove_tolerates_not_found:
  "Remove rhs this
     = (STATUS_CODE_SUCCESS,
        fold (\<lambda>entry c. fold (\<lambda>h c'. snd (RemoveCaloHit h (fst entry) c')) (snd entry) c) rhs this)
   \<and> (fst (RemoveCaloHit h l this) = STATUS_CODE_SUCCESS
        \<or> fst (RemoveCaloHit h l this) = STATUS_CODE_NOT_FOUND)
   \<and> (return_result_if_and_if_ne STATUS_CODE_SUCCESS STATUS_CODE_NOT_FOUND statusCode
        \<longleftrightarrow> statusCode \<noteq> STATUS_CODE_SUCCESS \<and> statusCode \<noteq> STATUS_CODE_NOT_FOUND)"
  by (simp add: Remove_def Remove_layers_completes RemoveCaloHit_status
      return_result_if_and_if_ne_def)

text \<open>
  The theorem of claim C4 at a container whose removal meets a hit that is absent from its
  layer and a layer that is absent.
\<close>

theorem Remove_tolerates_not_found_witness:
  "fst (RemoveCaloHit (4::nat) 5 [(5, [1, 2]), (7, [3])]) = STATUS_CODE_NOT_FOUND
   \<and> fst (RemoveCaloHit (1::nat) 6 [(5, [1, 2]), (7, [3])]) = STATUS_CODE_NOT_FOUND
   \<and> Remove [(5, [1, 4]), (6, [1]), (7, [3])] [(5, [1::nat, 2]), (7, [3])]
       = (STATUS_CODE_SUCCESS, [(5, [2])])"
  using Remove_tolerates_not_found [where rhs = "[(5, [1, 4]), (6, [1]), (7, [3])]"
      and this = "[(5, [1::nat, 2]), (7, [3])]" and h = 4 and l = 5]
  by (simp add: container_defs)

section \<open>Ordered calo hit list: reset\<close>

text \<open>
  Claim C9. \<open>Reset\<close> returns \<open>STATUS_CODE_SUCCESS\<close> with the empty container for every
  container, never \<open>STATUS_CODE_FAILURE\<close>, and a following \<open>GetCaloHitsInPseudoLayer\<close> for
  any layer returns \<open>STATUS_CODE_NOT_FOUND\<close>.
\<close>

theorem Reset_always_succeeds:
  "Reset this = (STATUS_CODE_SUCCESS, [])
   \<and> fst (Reset this) \<noteq> STATUS_CODE_FAILURE
   \<and> GetCaloHitsInPseudoLayer pseudoLayer (snd (Reset this)) pCaloHitList
       = (STATUS_CODE_NOT_FOUND, pCaloHitList)"
  by (simp add: Reset_def GetCaloHitsInPseudoLayer_def map_find_def)

text \<open>The theorem of claim C9 at a container of two layers.\<close>

theorem Reset_always_succeeds_witness:
  "Reset [(5, [1::nat, 2]), (7, [3])] = (STATUS_CODE_SUCCESS, [])
   \<and> GetCaloHitsInPseudoLayer 5 (snd (Reset [(5, [1::nat, 2]), (7, [3])])) [4]
       = (STATUS_CODE_NOT_FOUND, [4])"
  using Reset_always_succeeds [where this = "[(5, [1::nat, 2]), (7, [3])]" and pseudoLayer = 5
      and pCaloHitList = "[4]"]
  by blast

section \<open>Track manager\<close>

text \<open>
  Claim C5. \<open>SaveList\<close> under a name that already has a list returns
  \<open>STATUS_CODE_ALREADY_PRESENT\<close> and leaves the manager, and so the list under that name,
  as it was.
\<close>

theorem SaveList_existing_name:
  "m_nameToTrackListMap this newListName = Some existingList \<Longrightarrow>
     SaveList this trackList newListName = (STATUS_CODE_ALREADY_PRESENT, this)
     \<and> m_nameToTrackListMap (snd (SaveList this trackList newListName)) newListName
         = Some existingList"
  by (simp add: SaveList_def)

text \<open>The theorem of claim C5 at a manager holding the list \<open>input\<close>.\<close>

theorem SaveList_existing_name_witness:
  "m_nameToTrackListMap example_manager ''input'' = Some [1, 2, 3]
   \<and> SaveList example_manager [4] ''input'' = (STATUS_CODE_ALREADY_PRESENT, example_manager)
   \<and> m_nameToTrackListMap (snd (SaveList example_manager [4] ''input'')) ''input''
       = Some [1, 2, 3]"
proof -
  have h: "m_nameToTrackListMap example_manager ''input'' = Some [1, 2, 3]"
    by (simp add: example_manager_def)
  show ?thesis using h SaveList_existing_name [OF h, of "[4]"] by simp
qed

text \<open>
  Claim C6. With an empty current list name \<open>GetCurrentListName\<close> returns
  \<open>STATUS_CODE_NOT_INITIALIZED\<close> and its output parameter keeps its value; with a non-empty
  one it returns \<open>STATUS_CODE_SUCCESS\<close> and the output parameter is that name.
\<close>

theorem GetCurrentListName_result:
  "(m_currentListName this = [] \<longrightarrow>
      GetCurrentListName this trackListName = (STATUS_CODE_NOT_INITIALIZED, trackListName))
   \<and> (m_currentListName this \<noteq> [] \<longrightarrow>
      GetCurrentListName this trackListName = (STATUS_CODE_SUCCESS, m_currentListName this))"
  by (simp add: GetCurrentListName_def)

text \<open>The theorem of claim C6 at a manager without and at one with a current list name.\<close>

theorem GetCurrentListName_result_witness:
  "m_currentListName (example_manager\<lparr>m_currentListName := []\<rparr>) = []
   \<and> GetCurrentListName (example_manager\<lparr>m_currentListName := []\<rparr>) ''out''
       = (STATUS_CODE_NOT_INITIALIZED, ''out'')
   \<and> m_currentListName example_manager \<noteq> []
   \<and> GetCurrentListName example_manager ''out'' = (STATUS_CODE_SUCCESS, ''input'')"
  using GetCurrentListName_result [of "example_manager\<lparr>m_currentListName := []\<rparr>" "''out''"]
    GetCurrentListName_result [of example_manager "''out''"]
  by (simp add: example_manager_def)

text \<open>
  Claim C8. For an algorithm without an entry in the algorithm info map
  \<open>GetAlgorithmInputListName\<close> is \<open>GetCurrentListName\<close>: never \<open>STATUS_CODE_NOT_FOUND\<close>,
  \<open>STATUS_CODE_NOT_INITIALIZED\<close> when the current list name is empty and otherwise success
  with the current list name. For an algorithm with an entry it returns success with the
  entry's \<open>m_parentListName\<close>.
\<close>

theorem GetAlgorithmInputListName_result:
  "(m_algorithmInfoMap this pAlgorithm = None \<longrightarrow>
      GetAlgorithmInputListName this pAlgorithm trackListName
        = GetCurrentListName this trackListName
      \<and> fst (GetAlgorithmInputListName this pAlgorithm trackListName) \<noteq> STATUS_CODE_NOT_FOUND
      \<and> (m_currentListName this = [] \<longrightarrow>
           GetAlgorithmInputListName this pAlgorithm trackListName
             = (STATUS_CODE_NOT_INITIALIZED, trackListName))
      \<and> (m_currentListName this \<noteq> [] \<longrightarrow>
           GetAlgorithmInputListName this pAlgorithm trackListName
             = (STATUS_CODE_SUCCESS, m_currentListName this)))
   \<and> (\<forall>info. m_algorithmInfoMap this pAlgorithm = Some info \<longrightarrow>
        GetAlgorithmInputListName this pAlgorithm trackListName
          = (STATUS_CODE_SUCCESS, m_parentListName info))"
  by (simp add: GetAlgorithmInputListName_def GetCurrentListName_def)

text \<open>
  The theorem of claim C8 at an unregistered algorithm, with and without a current list
  name, and at a registered one.
\<close>

theorem GetAlgorithmInputListName_result_witness:
  "m_algorithmInfoMap example_manager 8 = None
   \<and> m_currentListName example_manager \<noteq> []
   \<and> GetAlgorithmInputListName example_manager 8 ''out'' = (STATUS_CODE_SUCCESS, ''input'')
   \<and> m_algorithmInfoMap (example_manager\<lparr>m_currentListName := []\<rparr>) 8 = None
   \<and> m_currentListName (example_manager\<lparr>m_currentListName := []\<rparr>) = []
   \<and> GetAlgorithmInputListName (example_manager\<lparr>m_currentListName := []\<rparr>) 8 ''out''
       = (STATUS_CODE_NOT_INITIALIZED, ''out'')
   \<and> m_algorithmInfoMap example_manager 7
       = Some \<lparr>m_parentListName = ''parent'', m_temporaryListNames = {},
                m_numberOfListsCreated = 0\<rparr>
   \<and> GetAlgorithmInputListName example_manager 7 ''out'' = (STATUS_CODE_SUCCESS, ''parent'')"
proof -
  let ?unset = "example_manager\<lparr>m_currentListName := []\<rparr>"
  let ?info = "\<lparr>m_parentListName = ''parent'', m_temporaryListNames = {},
                m_numberOfListsCreated = 0\<rparr>"
  have a: "m_algorithmInfoMap example_manager 8 = None"
    and b: "m_currentListName example_manager \<noteq> []"
    and c: "m_algorithmInfoMap ?unset 8 = None"
    and d: "m_currentListName ?unset = []"
    and e: "m_algorithmInfoMap example_manager 7 = Some ?info"
    and f: "m_currentListName example_manager = ''input''"
    by (simp_all add: example_manager_def)
  have "GetAlgorithmInputListName example_manager 8 ''out''
          = (STATUS_CODE_SUCCESS, m_currentListName example_manager)"
    using GetAlgorithmInputListName_result [of example_manager 8 "''out''"] a b by blast
  moreover have "GetAlgorithmInputListName ?unset 8 ''out'' = (STATUS_CODE_NOT_INITIALIZED, ''out'')"
    using GetAlgorithmInputListName_result [of ?unset 8 "''out''"] c d by blast
  moreover have "GetAlgorithmInputListName example_manager 7 ''out''
          = (STATUS_CODE_SUCCESS, m_parentListName ?info)"
    using GetAlgorithmInputListName_result [of example_manager 7 "''out''"] e by blast
  ultimately show ?thesis using a b c d e f by simp
qed

section \<open>Fragment removal helper\<close>

text \<open>
  Claim C7. With \<open>startLayer > endLayer\<close>, \<open>GetClusterHelixDistance\<close> returns
  \<open>STATUS_CODE_INVALID_PARAMETER\<close> as its result value, for every cluster and helix, and
  both output distances keep their values.
\<close>

theorem GetClusterHelixDistance_inverted_range:
  "startLayer > endLayer \<Longrightarrow>
     GetClusterHelixDistance fa pCluster GetDistanceToPoint startLayer endLayer maxOccupiedLayers
         closestDistanceToHit meanDistanceToHits
       = Some (STATUS_CODE_INVALID_PARAMETER, closestDistanceToHit, meanDistanceToHits)"
  by (simp add: GetClusterHelixDistance_def)

text \<open>The theorem of claim C7 at the layers 7 and 5.\<close>

theorem GetClusterHelixDistance_inverted_range_witness:
  "(7::32 word) > 5
   \<and> GetClusterHelixDistance int_arith example_cluster example_distance 7 5 10 11 12
       = Some (STATUS_CODE_INVALID_PARAMETER, 11, 12)"
proof -
  have h: "(7::32 word) > 5" by simp
  show ?thesis
    using h GetClusterHelixDistance_inverted_range [OF h, of int_arith example_cluster
        example_distance 10 11 12]
    by simp
qed

text \<open>On a range in order the same call walks the layers and returns the distances.\<close>

lemma GetClusterHelixDistance_example:
  "GetClusterHelixDistance int_arith example_cluster example_distance 5 7 10 11 12
     = Some (STATUS_CODE_SUCCESS, 10, 20)"
  by (simp add: GetClusterHelixDistance_def helixDistance_layers.simps map_find_def
      example_cluster_def example_distance_def int_arith_def)

text \<open>
  Claim C10. When the probed cluster reports zero calo hits, \<open>GetFractionOfCloseHits\<close> and
  \<open>GetFractionOfHitsInCone\<close> return the literal zero, for every other cluster, distance
  test and cone test; and whenever either returns a quotient, its divisor is the reported
  hit count and is not zero.
\<close>

theorem fractions_zero_hits:
  "(GetNCaloHits pClusterI = 0 \<longrightarrow> GetFractionOfCloseHits pClusterI pClusterJ isClose = FloatZero)
   \<and> (GetNCaloHits pCluster = 0 \<longrightarrow> GetFractionOfHitsInCone pCluster inCone = FloatZero)
   \<and> (\<forall>n d. GetFractionOfCloseHits pClusterI pClusterJ isClose = FloatQuotient n d \<longrightarrow>
          d = GetNCaloHits pClusterI \<and> d \<noteq> 0)
   \<and> (\<forall>n d. GetFractionOfHitsInCone pCluster inCone = FloatQuotient n d \<longrightarrow>
          d = GetNCaloHits pCluster \<and> d \<noteq> 0)"
  by (auto simp: GetFractionOfCloseHits_def GetFractionOfHitsInCone_def Let_def)

text \<open>
  The theorem of claim C10 at a cluster that reports no hits and at one that reports
  three.
\<close>

theorem fractions_zero_hits_witness:
  "GetNCaloHits empty_count_cluster = 0
   \<and> GetFractionOfCloseHits empty_count_cluster example_cluster (\<lambda>hitI hitJ. hitI = hitJ) = FloatZero
   \<and> GetFractionOfHitsInCone empty_count_cluster (\<lambda>hit. hit < 3) = FloatZero
   \<and> GetFractionOfCloseHits example_cluster example_cluster (\<lambda>hitI hitJ. hitI < hitJ)
       = FloatQuotient 2 3
   \<and> GetFractionOfHitsInCone example_cluster (\<lambda>hit. hit < 2) = FloatQuotient 1 3
   \<and> (3::32 word) \<noteq> 0"
proof -
  have z: "GetNCaloHits empty_count_cluster = 0" by (simp add: empty_count_cluster_def)
  have q1: "GetFractionOfCloseHits example_cluster example_cluster (\<lambda>hitI hitJ. hitI < hitJ)
       = FloatQuotient 2 3"
    by (simp add: GetFractionOfCloseHits_def example_cluster_def)
  have q2: "GetFractionOfHitsInCone example_cluster (\<lambda>hit. hit < 2) = FloatQuotient 1 3"
    by (simp add: GetFractionOfHitsInCone_def example_cluster_def)
  have "GetFractionOfCloseHits empty_count_cluster example_cluster (\<lambda>hitI hitJ. hitI = hitJ)
          = FloatZero"
    using fractions_zero_hits [of empty_count_cluster example_cluster "\<lambda>hitI hitJ. hitI = hitJ"] z
    by blast
  moreover have "GetFractionOfHitsInCone empty_count_cluster (\<lambda>hit. hit < 3) = FloatZero"
    using fractions_zero_hits [where pCluster = empty_count_cluster and inCone = "\<lambda>hit. hit < 3"] z
    by blast
  moreover have "(3::32 word) \<noteq> 0"
    using fractions_zero_hits [where pClusterI = example_cluster and pClusterJ = example_cluster
        and isClose = "\<lambda>hitI hitJ. hitI < hitJ"] q1
    by blast
  ultimately show ?thesis using z q1 q2 by simp
qed

end
